theory Spec2Isabelle
  imports Main "HOL-Library.Word" "HOL-Library.Sublist"
begin

unbundle bit_operations_syntax

section \<open>JavaScript strings\<close>

text \<open>
  A JavaScript string is a sequence of UTF-16 code units. \<open>jstr\<close> writes an ASCII
  literal of the source as such a sequence.
\<close>

type_synonym byte = "8 word"
type_synonym jstring = "16 word list"

definition jstr :: "string \<Rightarrow> jstring" where
  "jstr s = map (\<lambda>c. of_nat (of_char c)) s"

text \<open>
  \<open>String.prototype.trim\<close> removes the code units of WhiteSpace and LineTerminator
  (ECMA-262) from both ends.
\<close>

definition is_ws :: "16 word \<Rightarrow> bool" where
  "is_ws c \<longleftrightarrow>
     c = 0x9 \<or> c = 0xA \<or> c = 0xB \<or> c = 0xC \<or> c = 0xD \<or> c = 0x20 \<or> c = 0xA0
     \<or> c = 0x1680 \<or> (0x2000 \<le> c \<and> c \<le> 0x200A) \<or> c = 0x2028 \<or> c = 0x2029
     \<or> c = 0x202F \<or> c = 0x205F \<or> c = 0x3000 \<or> c = 0xFEFF"

definition trim :: "jstring \<Rightarrow> jstring" where
  "trim s = rev (dropWhile is_ws (rev (dropWhile is_ws s)))"

text \<open>\<open>s.indexOf(pat)\<close>: the first position where \<open>pat\<close> occurs, \<open>None\<close> for -1.\<close>

fun indexOf :: "jstring \<Rightarrow> jstring \<Rightarrow> nat option" where
  "indexOf [] pat = (if pat = [] then Some 0 else None)"
| "indexOf (x # xs) pat =
     (if prefix pat (x # xs) then Some 0 else map_option Suc (indexOf xs pat))"

definition startsWith :: "jstring \<Rightarrow> jstring \<Rightarrow> bool" where
  "startsWith s pat = prefix pat s"

text \<open>The decimal digits of a number, as a template literal prints \<open>resp.status\<close>.\<close>

function decimal :: "nat \<Rightarrow> jstring" where
  "decimal n = (if n < 10 then [of_nat (48 + n)]
                else decimal (n div 10) @ [of_nat (48 + n mod 10)])"
  by pat_completeness auto
termination
  by (relation "measure id") auto

declare decimal.simps [simp del]

section \<open>The streaming text decoder\<close>

text \<open>
  \<open>new TextDecoder()\<close> is the UTF-8 decoder of the Encoding Standard in replacement
  mode. Every call in the source is \<open>decode(chunk, {stream: true})\<close>, so the decoder is
  never flushed: its state (the bytes of an unfinished character, and whether the byte
  order mark has been looked for) lives from one chunk to the next.
\<close>

record TextDecoder =
  code_point :: "32 word"
  bytes_seen :: nat
  bytes_needed :: nat
  lower_boundary :: byte
  upper_boundary :: byte
  BOM_seen :: bool

definition new_TextDecoder :: TextDecoder where
  "new_TextDecoder = \<lparr>code_point = 0, bytes_seen = 0, bytes_needed = 0,
     lower_boundary = 0x80, upper_boundary = 0xBF, BOM_seen = False\<rparr>"

definition utf8_reset :: "TextDecoder \<Rightarrow> TextDecoder" where
  "utf8_reset d = d\<lparr>code_point := 0, bytes_seen := 0, bytes_needed := 0,
     lower_boundary := 0x80, upper_boundary := 0xBF\<rparr>"

text \<open>The handler on a byte that starts a character (no bytes are needed).\<close>

definition utf8_lead :: "TextDecoder \<Rightarrow> byte \<Rightarrow> TextDecoder \<times> 32 word list" where
  "utf8_lead d b =
     (if b \<le> 0x7F then (d, [ucast b])
      else if 0xC2 \<le> b \<and> b \<le> 0xDF then
        (d\<lparr>code_point := ucast (b AND 0x1F), bytes_needed := 1\<rparr>, [])
      else if 0xE0 \<le> b \<and> b \<le> 0xEF then
        (d\<lparr>code_point := ucast (b AND 0xF), bytes_needed := 2,
           lower_boundary := (if b = 0xE0 then 0xA0 else lower_boundary d),
           upper_boundary := (if b = 0xED then 0x9F else upper_boundary d)\<rparr>, [])
      else if 0xF0 \<le> b \<and> b \<le> 0xF4 then
        (d\<lparr>code_point := ucast (b AND 0x7), bytes_needed := 3,
           lower_boundary := (if b = 0xF0 then 0x90 else lower_boundary d),
           upper_boundary := (if b = 0xF4 then 0x8F else upper_boundary d)\<rparr>, [])
      else (d, [0xFFFD]))"

text \<open>
  The handler on any byte. A byte outside the expected range ends the unfinished
  character with U+FFFD and is then read again as the start of a character.
\<close>

definition utf8_handler :: "TextDecoder \<Rightarrow> byte \<Rightarrow> TextDecoder \<times> 32 word list" where
  "utf8_handler d b =
     (if bytes_needed d = 0 then utf8_lead d b
      else if \<not> (lower_boundary d \<le> b \<and> b \<le> upper_boundary d) then
        (case utf8_lead (utf8_reset d) b of (d', out) \<Rightarrow> (d', 0xFFFD # out))
      else
        (let d1 = d\<lparr>code_point := push_bit 6 (code_point d) OR ucast (b AND 0x3F),
                     bytes_seen := bytes_seen d + 1,
                     lower_boundary := 0x80, upper_boundary := 0xBF\<rparr>
         in if bytes_seen d1 \<noteq> bytes_needed d1 then (d1, [])
            else (utf8_reset d1, [code_point d1])))"

text \<open>A scalar value as UTF-16 code units.\<close>

definition utf16 :: "32 word \<Rightarrow> jstring" where
  "utf16 cp =
     (if cp < 0x10000 then [ucast cp]
      else [ucast (0xD800 + drop_bit 10 (cp - 0x10000)),
            ucast (0xDC00 + ((cp - 0x10000) AND 0x3FF))])"

text \<open>Serialising the decoded scalar values drops one leading byte order mark.\<close>

fun serialize :: "TextDecoder \<Rightarrow> 32 word list \<Rightarrow> TextDecoder \<times> jstring" where
  "serialize d [] = (d, [])"
| "serialize d (item # items) =
     (if \<not> BOM_seen d then
        (case serialize (d\<lparr>BOM_seen := True\<rparr>) items of
           (d', s) \<Rightarrow> (d', (if item = 0xFEFF then [] else utf16 item) @ s))
      else (case serialize d items of (d', s) \<Rightarrow> (d', utf16 item @ s)))"

text \<open>\<open>decoder.decode(chunk, {stream: true})\<close>: the new decoder state and the text.\<close>

fun decode :: "TextDecoder \<Rightarrow> byte list \<Rightarrow> TextDecoder \<times> jstring" where
  "decode d [] = (d, [])"
| "decode d (b # bs) =
     (case utf8_handler d b of (d1, scalars) \<Rightarrow>
        (case serialize d1 scalars of (d2, s) \<Rightarrow>
           (case decode d2 bs of (d3, t) \<Rightarrow> (d3, s @ t))))"

section \<open>Parsed JSON values\<close>

text \<open>
  The values \<open>JSON.parse\<close> can return. The client looks at a number only through its
  truth value and its string form, so a number is kept as these two.
  \<open>JSON.parse\<close> itself belongs to the host: the functions below take it as the
  parameter \<open>parse\<close>, \<open>None\<close> standing for the SyntaxError it throws.
\<close>

datatype jsval =
    JNull
  | JBool bool
  | JNumber (nonzero: bool) (number_string: jstring)
  | JString jstring
  | JArray "jsval list"
  | JObject "(jstring \<times> jsval) list"

type_synonym parser = "jstring \<Rightarrow> jsval option"

text \<open>\<open>parsed?.k\<close> for the property names \<open>delta\<close> and \<open>error\<close>; \<open>None\<close> is undefined.\<close>

fun member :: "jsval \<Rightarrow> jstring \<Rightarrow> jsval option" where
  "member (JObject kvs) k = map_of kvs k"
| "member _ k = None"

fun truthy :: "jsval option \<Rightarrow> bool" where
  "truthy None = False"
| "truthy (Some JNull) = False"
| "truthy (Some (JBool b)) = b"
| "truthy (Some (JNumber nz s)) = nz"
| "truthy (Some (JString s)) = (s \<noteq> [])"
| "truthy (Some (JArray vs)) = True"
| "truthy (Some (JObject kvs)) = True"

fun join :: "jstring list \<Rightarrow> jstring" where
  "join [] = []"
| "join [s] = s"
| "join (s # t # ts) = s @ jstr '','' @ join (t # ts)"

text \<open>
  The string form of a value, as \<open>text + value\<close> and a template literal compute it;
  \<open>None\<close> is the TypeError of a value that has none. An object made by \<open>JSON.parse\<close>
  inherits \<open>toString\<close> from \<open>Object.prototype\<close> unless it has a key of that name:
  then the key's value, which is never callable, hides the inherited function, and the
  inherited \<open>valueOf\<close> returns the object itself, so the conversion throws. An array
  joins the string forms of its elements, \<open>null\<close> counting as the empty string.
\<close>

fun ToString :: "jsval \<Rightarrow> jstring option" where
  "ToString JNull = Some (jstr ''null'')"
| "ToString (JBool b) = Some (if b then jstr ''true'' else jstr ''false'')"
| "ToString (JNumber nz s) = Some s"
| "ToString (JString s) = Some s"
| "ToString (JArray vs) =
     map_option join (those (map (\<lambda>v. if v = JNull then Some [] else ToString v) vs))"
| "ToString (JObject kvs) =
     (if map_of kvs (jstr ''toString'') = None then Some (jstr ''[object Object]'') else None)"

section \<open>The component state\<close>

datatype role = Ai | User

record message =
  role :: role
  mtext :: jstring

text \<open>
  The TypeErrors a state updater can throw: reading \<open>text\<close> of the undefined last
  element of an empty array, and converting a value that has no string form.
\<close>

datatype type_error = UndefinedText | NotPrimitive

text \<open>
  The state of \<open>ChatBox\<close>: the three \<open>useState\<close> cells, whether \<open>abortRef.current\<close>
  holds a controller, and the errors that state updaters have thrown while rendering.
\<close>

record chat_state =
  messages :: "message list"
  input :: jstring
  loading :: bool
  abortRef :: bool
  render_errors :: "type_error list"

definition greeting :: jstring where
  "greeting = jstr ''Hello! Ask me anything about Germany'' @ [0x2019] @ jstr ''s Fiscal Code.''"

definition initial_state :: chat_state where
  "initial_state = \<lparr>messages = [\<lparr>role = Ai, mtext = greeting\<rparr>], input = [],
     loading = False, abortRef = False, render_errors = []\<rparr>"

text \<open>
  \<open>setMessages(updater)\<close>. An updater that throws leaves the messages as they were;
  its error is thrown out of the render and never reaches \<open>sendMessage\<close>.
\<close>

type_synonym updater = "message list \<Rightarrow> type_error + message list"

definition setMessages :: "updater \<Rightarrow> chat_state \<Rightarrow> chat_state" where
  "setMessages updater st =
     (case updater (messages st) of
        Inl e \<Rightarrow> st\<lparr>render_errors := render_errors st @ [e]\<rparr>
      | Inr out \<Rightarrow> st\<lparr>messages := out\<rparr>)"

definition setInput :: "jstring \<Rightarrow> chat_state \<Rightarrow> chat_state" where
  "setInput s st = st\<lparr>input := s\<rparr>"

text \<open>
  The updater of the plain-text fallback:
  \<open>out[out.length - 1] = {...last, text: (last.text || "") + data}\<close>. On an empty array
  \<open>out[out.length - 1]\<close> is undefined and reading its \<open>text\<close> throws a TypeError.
\<close>

definition append_to_last :: "jstring \<Rightarrow> updater" where
  "append_to_last s prev =
     (let out = prev in
      if out = [] then Inl UndefinedText
      else Inr (out[length out - 1 :=
             (out ! (length out - 1))\<lparr>mtext :=
                (if mtext (out ! (length out - 1)) = [] then []
                 else mtext (out ! (length out - 1))) @ s\<rparr>]))"

text \<open>
  The updater of the delta branch, the same assignment with \<open>+ parsed.delta\<close>: the
  last element's \<open>text\<close> is read first, then the value is converted.
\<close>

definition append_delta :: "jsval \<Rightarrow> updater" where
  "append_delta delta prev =
     (if prev = [] then Inl UndefinedText
      else (case ToString delta of
              None \<Rightarrow> Inl NotPrimitive
            | Some s \<Rightarrow> append_to_last s prev))"

definition append_message :: "message \<Rightarrow> updater" where
  "append_message m prev = Inr (prev @ [m])"

text \<open>The updater of the error branch, with its template literal.\<close>

definition append_error :: "jsval \<Rightarrow> updater" where
  "append_error err prev =
     (case ToString err of
        None \<Rightarrow> Inl NotPrimitive
      | Some s \<Rightarrow> append_message \<lparr>role = Ai, mtext = jstr ''Error: '' @ s\<rparr> prev)"

section \<open>The frame loop\<close>

text \<open>
  The \<open>try\<close> block around \<open>JSON.parse(data)\<close> with its \<open>catch\<close>
  (ChatBox.js lines 54 to 72).
\<close>

definition on_data :: "parser \<Rightarrow> jstring \<Rightarrow> chat_state \<Rightarrow> chat_state" where
  "on_data parse data st =
     (case parse data of
        None \<Rightarrow> setMessages (append_to_last data) st
      | Some parsed \<Rightarrow>
          (if truthy (member parsed (jstr ''delta'')) then
             (case member parsed (jstr ''delta'') of
                Some delta \<Rightarrow> setMessages (append_delta delta) st
              | None \<Rightarrow> st)
           else if truthy (member parsed (jstr ''error'')) then
             (case member parsed (jstr ''error'') of
                Some err \<Rightarrow> setMessages (append_error err) st
              | None \<Rightarrow> st)
           else st))"

datatype flow = Continue | Break

text \<open>The body of the inner \<open>while\<close> loop on one extracted, trimmed frame.\<close>

definition on_frame :: "parser \<Rightarrow> jstring \<Rightarrow> chat_state \<Rightarrow> chat_state \<times> flow" where
  "on_frame parse raw st =
     (if raw = [] then (st, Continue)
      else if startsWith raw (jstr ''event:'') then (st, Continue)
      else if startsWith raw (jstr ''data:'') then
        (let data = trim (drop 5 raw) in
         if data = jstr ''end'' then (st, Break)
         else (on_data parse data st, Continue))
      else (st, Continue))"

section \<open>The response body and its reader\<close>

text \<open>Thrown values; the client reads only their \<open>message\<close>.\<close>

datatype exn = Error jstring | TypeError jstring | AbortError jstring

fun message_of :: "exn \<Rightarrow> jstring" where
  "message_of (Error m) = m"
| "message_of (TypeError m) = m"
| "message_of (AbortError m) = m"

text \<open>
  The body as the reader sees it: the chunks still to be delivered, and how the stream
  ends after them. It ends closed, or errored: by the network, or by
  \<open>abortRef.current.abort()\<close>, which makes the pending \<open>read()\<close> reject with an
  AbortError.
\<close>

datatype stream_end = Closed | Errored exn

record reader =
  queue :: "byte list list"
  ending :: stream_end

datatype read_result = Value "byte list" | Done | Rejected exn

definition reader_read :: "reader \<Rightarrow> read_result \<times> reader" where
  "reader_read rd =
     (case queue rd of
        chunk # rest \<Rightarrow> (Value chunk, rd\<lparr>queue := rest\<rparr>)
      | [] \<Rightarrow> (case ending rd of Closed \<Rightarrow> (Done, rd) | Errored e \<Rightarrow> (Rejected e, rd)))"

text \<open>
  \<open>reader.cancel()\<close> on a stream that has just delivered a chunk: the stream is closed
  and what it still held is dropped, so the next \<open>read()\<close> reports done.
\<close>

definition reader_cancel :: "reader \<Rightarrow> reader" where
  "reader_cancel rd = rd\<lparr>queue := [], ending := Closed\<rparr>"

text \<open>
  The two streaming variants of \<open>sendMessage\<close> differ in one statement, on the
  \<open>end\<close> payload: ChatBox.js only leaves the frame loop (line 52), part_005 first
  awaits \<open>reader.cancel()\<close> inside an empty \<open>try\<close>/\<open>catch\<close> (lines 73 and 74).
\<close>

datatype variant = ChatBox_js | part_005

definition on_end :: "variant \<Rightarrow> reader \<Rightarrow> reader" where
  "on_end v rd = (case v of ChatBox_js \<Rightarrow> rd | part_005 \<Rightarrow> reader_cancel rd)"

text \<open>
  The inner loop \<open>while ((idx = buffer.indexOf("\n\n")) !== -1)\<close>. It returns the
  state, the rest of the buffer and the reader.
\<close>

function frames_loop ::
  "variant \<Rightarrow> parser \<Rightarrow> jstring \<Rightarrow> chat_state \<Rightarrow> reader \<Rightarrow> chat_state \<times> jstring \<times> reader" where
  "frames_loop v parse buffer st rd =
     (case indexOf buffer [0xA, 0xA] of
        None \<Rightarrow> (st, buffer, rd)
      | Some idx \<Rightarrow>
          (let raw = trim (take idx buffer);
               buffer' = drop (idx + 2) buffer
           in case on_frame parse raw st of
                (st', Continue) \<Rightarrow> frames_loop v parse buffer' st' rd
              | (st', Break) \<Rightarrow> (st', buffer', on_end v rd)))"
  by pat_completeness auto
termination
proof (relation "measure (\<lambda>(v, parse, buffer, st, rd). length buffer)")
  show "wf (measure (\<lambda>(v, parse, buffer, st, rd). length buffer))"
    by simp
next
  fix v :: variant and parse :: parser and buffer :: jstring and st :: chat_state
    and rd :: reader and idx raw buffer' x st' fl
  assume found: "indexOf buffer [0xA, 0xA] = Some idx"
    and rest: "buffer' = drop (idx + 2) buffer"
  have bound: "idx < length xs" if "indexOf xs [0xA, 0xA] = Some idx" for xs idx
    using that
  proof (induction xs arbitrary: idx)
    case Nil
    then show ?case by simp
  next
    case (Cons x xs)
    then show ?case
      by (cases "prefix [0xA, 0xA] (x # xs)") auto
  qed
  from bound [OF found] rest
  show "((v, parse, buffer', st', rd), (v, parse, buffer, st, rd))
          \<in> measure (\<lambda>(v, parse, buffer, st, rd). length buffer)"
    by simp
qed

declare frames_loop.simps [simp del]

text \<open>
  The outer loop \<open>while (true)\<close> around \<open>await reader.read()\<close>. It returns the state
  and what the loop threw, if anything.
\<close>

function read_loop ::
  "variant \<Rightarrow> parser \<Rightarrow> reader \<Rightarrow> TextDecoder \<Rightarrow> jstring \<Rightarrow> chat_state \<Rightarrow> chat_state \<times> exn option" where
  "read_loop v parse rd decoder buffer st =
     (case reader_read rd of
        (Rejected e, rd') \<Rightarrow> (st, Some e)
      | (Done, rd') \<Rightarrow> (st, None)
      | (Value chunk, rd') \<Rightarrow>
          (case decode decoder chunk of (decoder', s) \<Rightarrow>
             (case frames_loop v parse (buffer @ s) st rd' of
                (st', buffer', rd'') \<Rightarrow> read_loop v parse rd'' decoder' buffer' st')))"
  by pat_completeness auto
termination
proof (relation "measure (\<lambda>(v, parse, rd, decoder, buffer, st). length (queue rd))")
  show "wf (measure (\<lambda>(v, parse, rd, decoder, buffer, st). length (queue rd)))"
    by simp
next
  fix v :: variant and parse :: parser and rd :: reader and decoder :: TextDecoder
    and buffer :: jstring and st :: chat_state
    and x rd' chunk decoder' s st' w buffer' rd''
  assume rd: "(x, rd') = reader_read rd" "x = Value chunk"
    and fr: "(st', w) = frames_loop v parse (buffer @ s) st rd'" "(buffer', rd'') = w"
  have keep: "length (queue (snd (snd (frames_loop v parse b t r)))) \<le> length (queue r)"
    for b t r
  proof (induction v parse b t r rule: frames_loop.induct)
    case (1 v parse buffer st rd)
    show ?case
    proof (cases "indexOf buffer [0xA, 0xA]")
      case None
      then show ?thesis by (subst frames_loop.simps) simp
    next
      case (Some idx)
      obtain st' fl where fr: "on_frame parse (trim (take idx buffer)) st = (st', fl)"
        by (cases "on_frame parse (trim (take idx buffer)) st")
      show ?thesis
      proof (cases fl)
        case Continue
        with Some fr 1 [OF Some refl refl fr [symmetric]] show ?thesis
          by (subst frames_loop.simps) simp
      next
        case Break
        with Some fr show ?thesis
          by (subst frames_loop.simps)
            (simp add: on_end_def reader_cancel_def split: variant.splits)
      qed
    qed
  qed
  from rd have "length (queue rd') < length (queue rd)"
    by (auto simp: reader_read_def split: list.splits stream_end.splits)
  moreover from fr keep [of "buffer @ s" st rd'] have "length (queue rd'') \<le> length (queue rd')"
    by (metis snd_conv)
  ultimately
  show "((v, parse, rd'', decoder', buffer', st'), (v, parse, rd, decoder, buffer, st))
          \<in> measure (\<lambda>(v, parse, rd, decoder, buffer, st). length (queue rd))"
    by simp
qed

declare read_loop.simps [simp del]

section \<open>sendMessage\<close>

record response =
  status :: nat
  body :: "reader option"

definition ok :: "response \<Rightarrow> bool" where
  "ok resp \<longleftrightarrow> 200 \<le> status resp \<and> status resp \<le> 299"

datatype fetch_outcome = Rejects exn | Resolves response

record request =
  question :: jstring

text \<open>
  The part of \<open>sendMessage\<close> before the \<open>try\<close>: \<open>None\<close> is the early return, otherwise
  the updated state and the request \<open>fetch\<close> is about to send.
\<close>

definition sendMessage_start :: "chat_state \<Rightarrow> (chat_state \<times> request) option" where
  "sendMessage_start st =
     (if trim (input st) = [] \<or> loading st then None
      else
        (let q = trim (input st);
             st1 = setMessages (\<lambda>prev. Inr (prev @
                     [\<lparr>role = User, mtext = q\<rparr>, \<lparr>role = Ai, mtext = []\<rparr>])) st;
             st2 = setInput [] st1;
             st3 = st2\<lparr>loading := True\<rparr>;
             st4 = st3\<lparr>abortRef := True\<rparr>
         in Some (st4, \<lparr>question = q\<rparr>)))"

text \<open>The \<open>try\<close> block: the state it leaves and the value it throws, if any.\<close>

definition sendMessage_try ::
  "variant \<Rightarrow> parser \<Rightarrow> fetch_outcome \<Rightarrow> chat_state \<Rightarrow> chat_state \<times> exn option" where
  "sendMessage_try v parse net st =
     (case net of
        Rejects e \<Rightarrow> (st, Some e)
      | Resolves resp \<Rightarrow>
          (if \<not> ok resp \<or> body resp = None then
             (st, Some (Error (jstr ''HTTP '' @ decimal (status resp))))
           else
             (case body resp of
                Some rd \<Rightarrow> read_loop v parse rd new_TextDecoder [] st
              | None \<Rightarrow> (st, None))))"

text \<open>
  The whole call, given what the network (and the user's Stop button) will do to the
  request: the final state and the requests that were sent.
\<close>

definition sendMessage ::
  "variant \<Rightarrow> parser \<Rightarrow> fetch_outcome \<Rightarrow> chat_state \<Rightarrow> chat_state \<times> request list" where
  "sendMessage v parse net st =
     (case sendMessage_start st of
        None \<Rightarrow> (st, [])
      | Some (st1, req) \<Rightarrow>
          (case sendMessage_try v parse net st1 of
             (st2, thrown) \<Rightarrow>
               (let st3 = (case thrown of
                             Some e \<Rightarrow> setMessages (append_message
                               \<lparr>role = Ai, mtext = jstr ''Error: '' @ message_of e\<rparr>) st2
                           | None \<Rightarrow> st2);
                    st4 = st3\<lparr>loading := False\<rparr>;
                    st5 = st4\<lparr>abortRef := False\<rparr>
                in (st5, [req]))))"

section \<open>Using the component\<close>

text \<open>
  What happens to a mounted \<open>ChatBox\<close>: the user types into the input field, or a call
  of \<open>sendMessage\<close> runs to its end against some behaviour of the network. \<open>run\<close>
  applies a sequence of these to a state.
\<close>

datatype op = Type jstring | Send variant parser fetch_outcome

fun run :: "chat_state \<Rightarrow> op list \<Rightarrow> chat_state" where
  "run st [] = st"
| "run st (Type s # ops) = run (setInput s st) ops"
| "run st (Send v parse net # ops) = run (fst (sendMessage v parse net st)) ops"

text \<open>
  The state can take deltas: there is a last message, and no updater has found the list
  empty.
\<close>

definition inv :: "chat_state \<Rightarrow> bool" where
  "inv st \<longleftrightarrow> messages st \<noteq> [] \<and> UndefinedText \<notin> set (render_errors st)"

text \<open>
  The conversation still begins with the messages \<open>pre\<close>, and an assistant message
  stands right behind them.
\<close>

definition opened :: "message list \<Rightarrow> chat_state \<Rightarrow> bool" where
  "opened pre st \<longleftrightarrow>
     length pre < length (messages st) \<and> take (length pre) (messages st) = pre
     \<and> role (messages st ! length pre) = Ai"

section \<open>Concrete inputs\<close>

text \<open>ASCII text as the bytes of its UTF-8 encoding.\<close>

definition bytes :: "string \<Rightarrow> byte list" where
  "bytes s = map (\<lambda>c. of_nat (of_char c)) s"

text \<open>
  A parser for the concrete runs below. It reads the texts \<open>{"k":"v"}\<close> whose key and
  value hold no quote, backslash or control character, as \<open>JSON.parse\<close> reads them, and
  rejects every other text; the runs give it only such texts and texts that are not JSON.
\<close>

definition plain :: "16 word \<Rightarrow> bool" where
  "plain c \<longleftrightarrow> c \<noteq> 0x22 \<and> c \<noteq> 0x5C \<and> 0x20 \<le> c"

definition parse_flat :: parser where
  \<open>parse_flat s =
     (if prefix (jstr ''{"'') s then
        (let s1 = drop 2 s; k = takeWhile plain s1; s2 = dropWhile plain s1 in
         if prefix (jstr ''":"'') s2 then
           (let s3 = drop 3 s2; v = takeWhile plain s3; s4 = dropWhile plain s3 in
            if s4 = jstr ''"}'' then Some (JObject [(k, JString v)]) else None)
         else None)
      else None)\<close>

text \<open>
  A parser that reads the two texts \<open>{"delta":{"toString":1}}\<close> and
  \<open>{"error":{"toString":1}}\<close>, as \<open>JSON.parse\<close> reads them, and frames with these
  payloads.
\<close>

definition parse_object :: parser where
  \<open>parse_object s =
     (if s = jstr ''{"delta":{"toString":1}}'' then
        Some (JObject [(jstr ''delta'', JObject [(jstr ''toString'', JNumber True (jstr ''1''))])])
      else if s = jstr ''{"error":{"toString":1}}'' then
        Some (JObject [(jstr ''error'', JObject [(jstr ''toString'', JNumber True (jstr ''1''))])])
      else None)\<close>

definition object_frame :: "byte list" where
  \<open>object_frame = bytes ''data: {"delta":{"toString":1}}\<newline>\<newline>''\<close>




definition end_text :: jstring where
  "end_text = jstr ''data: end\<newline>\<newline>''"

text \<open>The freshly mounted component with a question typed in.\<close>

definition asking :: "string \<Rightarrow> chat_state" where
  "asking q = setInput (jstr q) initial_state"

text \<open>A response with status 200 whose body delivers the chunks and then ends.\<close>

definition stream :: "byte list list \<Rightarrow> stream_end \<Rightarrow> fetch_outcome" where
  "stream chunks e = Resolves \<lparr>status = 200, body = Some \<lparr>queue = chunks, ending = e\<rparr>\<rparr>"

text \<open>Streams and states of the concrete runs.\<close>

definition end_frame :: "byte list" where
  "end_frame = bytes ''data: end\<newline>\<newline>''"

definition ignored_frame :: "byte list" where
  \<open>ignored_frame = bytes ''data: {"delta":"ignored"}\<newline>\<newline>''\<close>

definition hel_frame :: "byte list" where
  \<open>hel_frame = bytes ''data: {"delta":"Hel"}\<newline>\<newline>''\<close>

definition hi_frame :: "byte list" where
  \<open>hi_frame = bytes ''data: {"delta":"Hi"}\<newline>\<newline>''\<close>

definition event_frame :: "byte list" where
  \<open>event_frame = bytes ''event: message\<newline>data: {"delta":"Hi"}\<newline>\<newline>''\<close>

definition rate_frame :: "byte list" where
  \<open>rate_frame = bytes ''data: {"error":"rate limited"}\<newline>\<newline>''\<close>

definition plain_frame :: "byte list" where
  "plain_frame = bytes ''data: plain text reply\<newline>\<newline>''"

definition aborted :: stream_end where
  "aborted = Errored (AbortError (jstr ''BodyStreamBuffer was aborted''))"

definition event_text :: jstring where
  \<open>event_text = jstr ''event: message\<newline>data: {"delta":"Hi"}\<newline>\<newline>''\<close>

definition hi_text :: jstring where
  \<open>hi_text = jstr ''data: {"delta":"Hi"}\<newline>\<newline>''\<close>



definition streaming :: chat_state where
  "streaming = \<lparr>messages = [\<lparr>role = Ai, mtext = greeting\<rparr>, \<lparr>role = User, mtext = jstr ''hi''\<rparr>,
       \<lparr>role = Ai, mtext = jstr ''Hel''\<rparr>],
     input = [], loading = True, abortRef = True, render_errors = []\<rparr>"

definition hello_1 :: "byte list" where
  \<open>hello_1 = bytes ''data: {"delta":"Hel''\<close>

definition hello_2 :: "byte list" where
  \<open>hello_2 = bytes ''lo"}\<newline>\<newline>''\<close>

text \<open>A plain-text frame whose last character, U+00E9, is split between two chunks.\<close>

definition cafe_1 :: "byte list" where
  "cafe_1 = bytes ''data: caf'' @ [0xC3]"

definition cafe_2 :: "byte list" where
  "cafe_2 = [0xA9, 0xA] @ [0xA]"

section \<open>The frame loop without the reader\<close>

text \<open>
  The same loop as \<open>frames_loop\<close>, leaving out the reader and saying instead whether the
  loop was left by the \<open>break\<close> of the \<open>end\<close> payload.
\<close>

function frames :: "parser \<Rightarrow> jstring \<Rightarrow> chat_state \<Rightarrow> chat_state \<times> jstring \<times> flow" where
  "frames parse buffer st =
     (case indexOf buffer [0xA, 0xA] of
        None \<Rightarrow> (st, buffer, Continue)
      | Some idx \<Rightarrow>
          (case on_frame parse (trim (take idx buffer)) st of
             (st', Continue) \<Rightarrow> frames parse (drop (idx + 2) buffer) st'
           | (st', Break) \<Rightarrow> (st', drop (idx + 2) buffer, Break)))"
  by pat_completeness auto
termination
proof (relation "measure (\<lambda>(parse, buffer, st). length buffer)")
  show "wf (measure (\<lambda>(parse, buffer, st). length buffer))"
    by simp
next
  fix parse :: parser and buffer :: jstring and st :: chat_state and idx x st' fl
  assume found: "indexOf buffer [0xA, 0xA] = Some idx"
  have "i < length xs" if "indexOf xs [0xA, 0xA] = Some i" for xs i
    using that
  proof (induction xs arbitrary: i)
    case Nil
    then show ?case by simp
  next
    case (Cons x xs)
    then show ?case
      by (cases "prefix [0xA, 0xA] (x # xs)") auto
  qed
  from this [OF found]
  show "((parse, drop (idx + 2) buffer, st'), (parse, buffer, st))
          \<in> measure (\<lambda>(parse, buffer, st). length buffer)"
    by simp
qed

declare frames.simps [simp del]

text \<open>
  The text of a whole body, whether the frames of a text reach an \<open>end\<close> payload, and
  what the read loop throws when the body is exhausted.
\<close>

definition decoded :: "byte list \<Rightarrow> jstring" where
  "decoded bs = snd (decode new_TextDecoder bs)"

definition sees_end :: "parser \<Rightarrow> jstring \<Rightarrow> chat_state \<Rightarrow> bool" where
  "sees_end parse s st \<longleftrightarrow> snd (snd (frames parse s st)) = Break"

definition thrown_at :: "stream_end \<Rightarrow> exn option" where
  "thrown_at e = (case e of Closed \<Rightarrow> None | Errored x \<Rightarrow> Some x)"

section \<open>The message list under the updaters\<close>

lemma setMessages_append_message:
  "setMessages (append_message m) st = st\<lparr>messages := messages st @ [m]\<rparr>"
  by (simp add: setMessages_def append_message_def)

lemma append_to_last_nonempty:
  assumes "ms \<noteq> []"
  shows "append_to_last s ms = Inr (butlast ms @ [(last ms)\<lparr>mtext := mtext (last ms) @ s\<rparr>])"
proof -
  from assms obtain ys y where ms: "ms = ys @ [y]"
    by (metis rev_exhaust)
  show ?thesis
    by (simp add: ms append_to_last_def Let_def)
qed

lemma setMessages_append_to_last:
  "messages st \<noteq> [] \<Longrightarrow>
   setMessages (append_to_last s) st =
     st\<lparr>messages := butlast (messages st) @ [(last (messages st))\<lparr>mtext := mtext (last (messages st)) @ s\<rparr>]\<rparr>"
  by (simp add: setMessages_def append_to_last_nonempty)

lemma setMessages_append_delta:
  "messages st \<noteq> [] \<Longrightarrow>
   setMessages (append_delta d) st =
     (case ToString d of
        None \<Rightarrow> st\<lparr>render_errors := render_errors st @ [NotPrimitive]\<rparr>
      | Some s \<Rightarrow> setMessages (append_to_last s) st)"
  by (simp add: setMessages_def append_delta_def split: option.splits)

lemma setMessages_append_error:
  "setMessages (append_error e) st =
     (case ToString e of
        None \<Rightarrow> st\<lparr>render_errors := render_errors st @ [NotPrimitive]\<rparr>
      | Some s \<Rightarrow> st\<lparr>messages := messages st @ [\<lparr>role = Ai, mtext = jstr ''Error: '' @ s\<rparr>]\<rparr>)"
  by (simp add: setMessages_def append_error_def append_message_def split: option.splits)

text \<open>What \<open>on_data\<close> keeps, the loops and the \<open>try\<close> block keep.\<close>

lemma on_frame_preserves:
  "\<forall>data st. P st \<longrightarrow> P (on_data parse data st) \<Longrightarrow> P st \<Longrightarrow> P (fst (on_frame parse raw st))"
  by (simp add: on_frame_def Let_def)

lemma frames_loop_preserves:
  "\<forall>data st. P st \<longrightarrow> P (on_data parse data st) \<Longrightarrow> P st \<Longrightarrow>
   P (fst (frames_loop v parse buffer st rd))"
proof (induction v parse buffer st rd rule: frames_loop.induct)
  case (1 v parse buffer st rd)
  note step = "1.prems"(1)
  show ?case
  proof (cases "indexOf buffer [0xA, 0xA]")
    case None
    with 1 show ?thesis by (subst frames_loop.simps) simp
  next
    case (Some idx)
    obtain st' fl where fr: "on_frame parse (trim (take idx buffer)) st = (st', fl)"
      by (cases "on_frame parse (trim (take idx buffer)) st")
    from on_frame_preserves [OF "1.prems", of "trim (take idx buffer)"] fr
    have st': "P st'" by simp
    show ?thesis
    proof (cases fl)
      case Continue
      with Some fr "1.IH" [OF Some refl refl fr [symmetric] _ step st'] show ?thesis
        by (subst frames_loop.simps) simp
    next
      case Break
      with Some fr st' show ?thesis
        by (subst frames_loop.simps) simp
    qed
  qed
qed

lemma read_loop_preserves:
  "\<forall>data st. P st \<longrightarrow> P (on_data parse data st) \<Longrightarrow> P st \<Longrightarrow>
   P (fst (read_loop v parse rd decoder buffer st))"
proof (induction v parse rd decoder buffer st rule: read_loop.induct)
  case (1 v parse rd decoder buffer st)
  note step = "1.prems"(1)
  obtain x rd' where r: "reader_read rd = (x, rd')"
    by (cases "reader_read rd")
  show ?case
  proof (cases x)
    case (Value chunk)
    obtain decoder' s where d: "decode decoder chunk = (decoder', s)"
      by (cases "decode decoder chunk")
    obtain st' buffer' rd'' where f: "frames_loop v parse (buffer @ s) st rd' = (st', buffer', rd'')"
      by (cases "frames_loop v parse (buffer @ s) st rd'") auto
    from frames_loop_preserves [OF "1.prems", of v "buffer @ s" rd'] f have "P st'"
      by simp
    from "1.IH" [OF r [symmetric] Value d [symmetric] f [symmetric] refl step this]
    show ?thesis
      using r Value d f by (subst read_loop.simps) simp
  next
    case Done
    with r 1 show ?thesis by (subst read_loop.simps) simp
  next
    case (Rejected e)
    with r 1 show ?thesis by (subst read_loop.simps) simp
  qed
qed

lemma sendMessage_try_preserves:
  "\<forall>data st. P st \<longrightarrow> P (on_data parse data st) \<Longrightarrow> P st \<Longrightarrow>
   P (fst (sendMessage_try v parse net st))"
  by (auto simp: sendMessage_try_def read_loop_preserves split: fetch_outcome.splits option.splits)

text \<open>The list stays non-empty, and no updater finds it empty.\<close>

lemma inv_on_data: "inv st \<Longrightarrow> inv (on_data parse data st)"
  by (auto simp: on_data_def inv_def setMessages_append_to_last setMessages_append_delta
        setMessages_append_error split: option.splits)

lemma inv_sendMessage_start: "inv st \<Longrightarrow> sendMessage_start st = Some (st1, req) \<Longrightarrow> inv st1"
  by (auto simp: sendMessage_start_def Let_def inv_def setMessages_def setInput_def split: if_splits)

lemma inv_sendMessage: "inv st \<Longrightarrow> inv (fst (sendMessage v parse net st))"
proof (cases "sendMessage_start st")
  case None
  assume "inv st"
  with None show ?thesis by (simp add: sendMessage_def)
next
  case (Some a)
  assume i: "inv st"
  obtain st1 req where a: "a = (st1, req)" by (cases a)
  from inv_sendMessage_start [OF i] Some a have 1: "inv st1" by simp
  obtain st2 thrown where t: "sendMessage_try v parse net st1 = (st2, thrown)"
    by (cases "sendMessage_try v parse net st1")
  from sendMessage_try_preserves [of inv parse st1 v net] inv_on_data 1 t have 2: "inv st2"
    by simp
  then have "inv (case thrown of
                 Some e \<Rightarrow> setMessages (append_message
                   \<lparr>role = Ai, mtext = jstr ''Error: '' @ message_of e\<rparr>) st2
               | None \<Rightarrow> st2)"
    by (simp add: inv_def setMessages_append_message split: option.splits)
  then show ?thesis
    using Some a t by (simp add: sendMessage_def Let_def inv_def)
qed

lemma inv_run: "inv st \<Longrightarrow> inv (run st ops)"
proof (induction ops arbitrary: st)
  case Nil
  then show ?case by simp
next
  case (Cons a ops)
  then show ?case
    by (cases a) (simp_all add: inv_sendMessage, simp add: inv_def setInput_def)
qed

text \<open>
  The updaters change the last message or add one behind it, so the messages before an
  assistant message that has been opened stay, and it stays an assistant message.
\<close>

lemma opened_append_to_last:
  "opened pre st \<Longrightarrow> opened pre (setMessages (append_to_last s) st)"
  by (auto simp: opened_def setMessages_def append_to_last_def Let_def nth_list_update)

lemma opened_append_message:
  "opened pre st \<Longrightarrow> opened pre (setMessages (append_message m) st)"
  by (auto simp: opened_def setMessages_append_message nth_append)

lemma opened_on_data: "opened pre st \<Longrightarrow> opened pre (on_data parse data st)"
proof -
  assume o: "opened pre st"
  then have ne: "messages st \<noteq> []"
    by (auto simp: opened_def)
  have err: "opened pre (st\<lparr>render_errors := es\<rparr>)" for es
    using o by (simp add: opened_def)
  have app: "opened pre (st\<lparr>messages := messages st @ [m]\<rparr>)" for m
    using opened_append_message [OF o, of m] by (simp add: setMessages_append_message)
  show ?thesis
    using o ne err app opened_append_to_last [OF o]
    by (auto simp: on_data_def setMessages_append_delta setMessages_append_error
          split: option.splits)
qed

section \<open>The loops and the reader\<close>

lemma frames_loop_frames:
  "frames_loop v parse buffer st rd =
     (case frames parse buffer st of
        (st', buffer', fl) \<Rightarrow>
          (st', buffer', case fl of Continue \<Rightarrow> rd | Break \<Rightarrow> on_end v rd))"
proof (induction v parse buffer st rd rule: frames_loop.induct)
  case (1 v parse buffer st rd)
  show ?case
  proof (cases "indexOf buffer [0xA, 0xA]")
    case None
    then show ?thesis
      by (subst frames_loop.simps, subst frames.simps) simp
  next
    case (Some idx)
    obtain st' fl where fr: "on_frame parse (trim (take idx buffer)) st = (st', fl)"
      by (cases "on_frame parse (trim (take idx buffer)) st")
    show ?thesis
    proof (cases fl)
      case Continue
      with Some fr "1.IH" [OF Some refl refl fr [symmetric]] show ?thesis
        by (subst frames_loop.simps, subst frames.simps) simp
    next
      case Break
      with Some fr show ?thesis
        by (subst frames_loop.simps, subst frames.simps) simp
    qed
  qed
qed

lemma frames_loop_ChatBox_js:
  "frames_loop ChatBox_js parse buffer st rd =
     (fst (frames parse buffer st), fst (snd (frames parse buffer st)), rd)"
  by (simp add: frames_loop_frames on_end_def split: prod.splits flow.splits)

lemma read_loop_ChatBox_js_errored:
  "read_loop ChatBox_js parse \<lparr>queue = cs, ending = Errored e\<rparr> d b st =
     (fst (read_loop ChatBox_js parse \<lparr>queue = cs, ending = Closed\<rparr> d b st), Some e)
   \<and> snd (read_loop ChatBox_js parse \<lparr>queue = cs, ending = Closed\<rparr> d b st) = None"
proof (induction cs arbitrary: d b st)
  case Nil
  show ?case
    by (subst (1 2 3) read_loop.simps) (simp add: reader_read_def)
next
  case (Cons c cs)
  show ?case
    by (subst (1 2 3) read_loop.simps)
      (simp add: reader_read_def frames_loop_ChatBox_js Cons split: prod.splits)
qed


lemma data_not_event:
  "startsWith raw (jstr ''data:'') \<Longrightarrow> raw \<noteq> [] \<and> \<not> startsWith raw (jstr ''event:'')"
  by (cases raw) (auto simp: startsWith_def jstr_def)

section \<open>The body as one text\<close>

text \<open>
  Decoding and frame extraction carry their state from chunk to chunk, so the loops can
  be read off the decoded text of the whole body.
\<close>

lemma decode_append:
  "decode d (a @ b) =
     (case decode d a of (d1, s) \<Rightarrow> (case decode d1 b of (d2, t) \<Rightarrow> (d2, s @ t)))"
  by (induction a arbitrary: d) (auto split: prod.splits)

lemma indexOf_bound: "indexOf xs pat = Some i \<Longrightarrow> i + length pat \<le> length xs"
proof (induction xs arbitrary: i)
  case Nil
  then show ?case by (simp split: if_splits)
next
  case (Cons x xs)
  show ?case
  proof (cases "prefix pat (x # xs)")
    case True
    with Cons.prems show ?thesis by (auto dest: prefix_length_le)
  next
    case False
    with Cons show ?thesis by auto
  qed
qed

lemma prefix_short:
  "prefix pat (zs @ ys) \<Longrightarrow> length pat \<le> length zs \<Longrightarrow> prefix pat zs"
  by (auto simp: prefix_append)

lemma indexOf_append:
  "indexOf xs pat = Some i \<Longrightarrow> indexOf (xs @ ys) pat = Some i"
proof (induction xs arbitrary: i)
  case Nil
  then show ?case by (cases ys) (auto split: if_splits)
next
  case (Cons x xs)
  show ?case
  proof (cases "prefix pat (x # xs)")
    case True
    then have "prefix pat ((x # xs) @ ys)"
      by (metis prefix_prefix)
    with True Cons.prems show ?thesis by simp
  next
    case False
    with Cons.prems obtain j where j: "indexOf xs pat = Some j" "i = Suc j"
      by auto
    from indexOf_bound [OF j(1)] have len: "length pat \<le> length xs"
      by simp
    have "\<not> prefix pat ((x # xs) @ ys)"
    proof
      assume "prefix pat ((x # xs) @ ys)"
      then have "prefix pat (x # xs)"
        using len prefix_short [of pat "x # xs" ys] by simp
      with False show False by simp
    qed
    with Cons.IH [OF j(1)] j show ?thesis by simp
  qed
qed


lemma frames_append:
  "frames parse (b @ t) st =
     (case frames parse b st of
        (st', b', Break) \<Rightarrow> (st', b' @ t, Break)
      | (st', b', Continue) \<Rightarrow> frames parse (b' @ t) st')"
proof (induction parse b st rule: frames.induct)
  case (1 parse buffer st)
  show ?case
  proof (cases "indexOf buffer [0xA, 0xA]")
    case None
    then have "frames parse buffer st = (st, buffer, Continue)"
      by (subst frames.simps) simp
    then show ?thesis by simp
  next
    case (Some idx)
    from indexOf_bound [OF Some] have len: "idx + 2 \<le> length buffer"
      by simp
    note ext = indexOf_append [OF Some, of t]
    obtain st' fl where fr: "on_frame parse (trim (take idx buffer)) st = (st', fl)"
      by (cases "on_frame parse (trim (take idx buffer)) st")
    show ?thesis
    proof (cases fl)
      case Continue
      from Some fr Continue
      have l: "frames parse buffer st = frames parse (drop (idx + 2) buffer) st'"
        by (subst frames.simps) simp
      from ext fr Continue len
      have r: "frames parse (buffer @ t) st = frames parse (drop (idx + 2) buffer @ t) st'"
        by (subst frames.simps) simp
      from "1.IH" [OF Some fr [symmetric]] Continue l r show ?thesis
        by simp
    next
      case Break
      from Some fr Break
      have l: "frames parse buffer st = (st', drop (idx + 2) buffer, Break)"
        by (subst frames.simps) simp
      from ext fr Break len
      have r: "frames parse (buffer @ t) st = (st', drop (idx + 2) buffer @ t, Break)"
        by (subst frames.simps) simp
      from l r show ?thesis by simp
    qed
  qed
qed

lemma frames_Continue:
  "frames parse b st = (st', b', Continue) \<Longrightarrow> indexOf b' [0xA, 0xA] = None"
proof (induction parse b st rule: frames.induct)
  case (1 parse buffer st)
  show ?case
  proof (cases "indexOf buffer [0xA, 0xA]")
    case None
    with "1.prems" show ?thesis
      by (subst (asm) frames.simps) simp
  next
    case (Some idx)
    obtain st1 fl where fr: "on_frame parse (trim (take idx buffer)) st = (st1, fl)"
      by (cases "on_frame parse (trim (take idx buffer)) st")
    show ?thesis
    proof (cases fl)
      case Continue
      from "1.prems" Some fr Continue
      have "frames parse (drop (idx + 2) buffer) st1 = (st', b', Continue)"
        by (subst (asm) frames.simps) simp
      from "1.IH" [OF Some fr [symmetric] _ this] Continue show ?thesis
        by simp
    next
      case Break
      with "1.prems" Some fr show ?thesis
        by (subst (asm) frames.simps) simp
    qed
  qed
qed

lemma frames_no_delimiter:
  "indexOf b [0xA, 0xA] = None \<Longrightarrow> frames parse b st = (st, b, Continue)"
  by (subst frames.simps) simp

lemma read_loop_part_005:
  assumes "indexOf b [0xA, 0xA] = None"
  shows "read_loop part_005 parse \<lparr>queue = cs, ending = e\<rparr> d b st =
     (case frames parse (b @ snd (decode d (concat cs))) st of
        (st', b', Break) \<Rightarrow> (st', None)
      | (st', b', Continue) \<Rightarrow> (st', thrown_at e))"
  using assms
proof (induction cs arbitrary: d b st)
  case Nil
  then show ?case
    by (subst read_loop.simps)
      (simp add: reader_read_def frames_no_delimiter thrown_at_def split: stream_end.splits)
next
  case (Cons c cs)
  obtain d' s where dc: "decode d c = (d', s)"
    by (cases "decode d c")
  obtain d'' t where dr: "decode d' (concat cs) = (d'', t)"
    by (cases "decode d' (concat cs)")
  from dc dr have whole: "snd (decode d (concat (c # cs))) = s @ t"
    by (simp add: decode_append)
  obtain st' b' fl where fr: "frames parse (b @ s) st = (st', b', fl)"
    by (cases "frames parse (b @ s) st") auto
  show ?case
  proof (cases fl)
    case Continue
    from frames_Continue fr Continue have nd: "indexOf b' [0xA, 0xA] = None"
      by simp
    from fr Continue frames_append [of parse "b @ s" t st]
    have ext: "frames parse (b @ s @ t) st = frames parse (b' @ t) st'"
      by simp
    have "read_loop part_005 parse \<lparr>queue = c # cs, ending = e\<rparr> d b st =
        read_loop part_005 parse \<lparr>queue = cs, ending = e\<rparr> d' b' st'"
      using dc fr Continue
      by (subst read_loop.simps) (simp add: reader_read_def frames_loop_frames)
    with Cons.IH [OF nd, of d' st'] dr whole ext show ?thesis
      by simp
  next
    case Break
    from fr Break frames_append [of parse "b @ s" t st]
    have ext: "frames parse (b @ s @ t) st = (st', b' @ t, Break)"
      by simp
    have "read_loop part_005 parse \<lparr>queue = c # cs, ending = e\<rparr> d b st =
        read_loop part_005 parse \<lparr>queue = [], ending = Closed\<rparr> d' b' st'"
      using dc fr Break
      by (subst read_loop.simps)
        (simp add: reader_read_def frames_loop_frames on_end_def reader_cancel_def)
    also have "\<dots> = (st', None)"
      by (subst read_loop.simps) (simp add: reader_read_def)
    finally show ?thesis
      using whole ext by simp
  qed
qed

lemma read_loop_ChatBox_js:
  assumes "indexOf b [0xA, 0xA] = None"
    and "snd (snd (frames parse (b @ snd (decode d (concat cs))) st)) = Continue"
  shows "read_loop ChatBox_js parse \<lparr>queue = cs, ending = e\<rparr> d b st =
     (fst (frames parse (b @ snd (decode d (concat cs))) st), thrown_at e)"
  using assms
proof (induction cs arbitrary: d b st)
  case Nil
  then show ?case
    by (subst read_loop.simps)
      (simp add: reader_read_def frames_no_delimiter thrown_at_def split: stream_end.splits)
next
  case (Cons c cs)
  obtain d' s where dc: "decode d c = (d', s)"
    by (cases "decode d c")
  obtain d'' t where dr: "decode d' (concat cs) = (d'', t)"
    by (cases "decode d' (concat cs)")
  from dc dr have whole: "snd (decode d (concat (c # cs))) = s @ t"
    by (simp add: decode_append)
  obtain st' b' fl where fr: "frames parse (b @ s) st = (st', b', fl)"
    by (cases "frames parse (b @ s) st") auto
  from Cons.prems(2) whole have cont: "snd (snd (frames parse (b @ s @ t) st)) = Continue"
    by simp
  have fl: "fl = Continue"
  proof (cases fl)
    case Break
    with fr frames_append [of parse "b @ s" t st] cont show ?thesis by simp
  qed simp
  from frames_Continue fr fl have nd: "indexOf b' [0xA, 0xA] = None"
    by simp
  from fr fl frames_append [of parse "b @ s" t st]
  have ext: "frames parse (b @ s @ t) st = frames parse (b' @ t) st'"
    by simp
  have "read_loop ChatBox_js parse \<lparr>queue = c # cs, ending = e\<rparr> d b st =
      read_loop ChatBox_js parse \<lparr>queue = cs, ending = e\<rparr> d' b' st'"
    using dc fr fl
    by (subst read_loop.simps) (simp add: reader_read_def frames_loop_frames)
  moreover from cont ext dr
  have c': "snd (snd (frames parse (b' @ snd (decode d' (concat cs))) st')) = Continue"
    by simp
  ultimately show ?case
    using Cons.IH [OF nd c'] dr whole ext by simp
qed


text \<open>
  In part_005 the outcome of a call depends on the bytes of the body only, not on how
  they are cut into chunks, also inside a character or a delimiter.
\<close>

lemma part_005_chunking:
  assumes "concat chunks = concat chunks'"
  shows "sendMessage part_005 parse
           (Resolves \<lparr>status = s, body = Some \<lparr>queue = chunks, ending = e\<rparr>\<rparr>) st =
         sendMessage part_005 parse
           (Resolves \<lparr>status = s, body = Some \<lparr>queue = chunks', ending = e\<rparr>\<rparr>) st"
proof -
  have nd: "indexOf [] [0xA, 0xA :: 16 word] = None"
    by simp
  have "read_loop part_005 parse \<lparr>queue = chunks, ending = e\<rparr> new_TextDecoder [] st1 =
        read_loop part_005 parse \<lparr>queue = chunks', ending = e\<rparr> new_TextDecoder [] st1" for st1
    using assms by (simp add: read_loop_part_005 [OF nd])
  then show ?thesis
    by (simp add: sendMessage_def sendMessage_try_def ok_def split: option.splits)
qed

lemma part_005_chunking_example:
  "sendMessage part_005 parse_flat (stream [hello_1, hello_2, cafe_1, cafe_2] Closed) (asking ''hi'') =
   sendMessage part_005 parse_flat (stream [hello_1 @ hello_2 @ cafe_1 @ cafe_2] Closed) (asking ''hi'')
   \<and> messages (fst (sendMessage part_005 parse_flat (stream [hello_1, hello_2, cafe_1, cafe_2] Closed)
        (asking ''hi''))) =
     [\<lparr>role = Ai, mtext = greeting\<rparr>, \<lparr>role = User, mtext = jstr ''hi''\<rparr>,
      \<lparr>role = Ai, mtext = jstr ''Hellocaf'' @ [0xE9]\<rparr>]"
proof -
  have 1: "concat [hello_1, hello_2, cafe_1, cafe_2] = concat [hello_1 @ hello_2 @ cafe_1 @ cafe_2]"
    by simp
  have 2: "messages (fst (sendMessage part_005 parse_flat
        (stream [hello_1, hello_2, cafe_1, cafe_2] Closed) (asking ''hi''))) =
     [\<lparr>role = Ai, mtext = greeting\<rparr>, \<lparr>role = User, mtext = jstr ''hi''\<rparr>,
      \<lparr>role = Ai, mtext = jstr ''Hellocaf'' @ [0xE9]\<rparr>]"
    by code_simp
  from part_005_chunking [OF 1, of parse_flat 200 Closed "asking ''hi''"] 2 show ?thesis
    by (simp add: stream_def)
qed


text \<open>
  In part_005, once the chunks delivered so far hold a frame with the \<open>end\<close> payload,
  nothing that comes later changes the outcome: not more chunks, nor an error of the
  stream.
\<close>

lemma part_005_stops_at_end:
  assumes "sendMessage_start st = Some (st1, req)"
    and "sees_end parse (decoded (concat chunks)) st1"
  shows "sendMessage part_005 parse
           (Resolves \<lparr>status = 200, body = Some \<lparr>queue = chunks @ later, ending = e\<rparr>\<rparr>) st =
         sendMessage part_005 parse
           (Resolves \<lparr>status = 200, body = Some \<lparr>queue = chunks, ending = Closed\<rparr>\<rparr>) st"
proof -
  have nd: "indexOf [] [0xA, 0xA :: 16 word] = None"
    by simp
  obtain d' t where dm: "decode (fst (decode new_TextDecoder (concat chunks))) (concat later) = (d', t)"
    by (cases "decode (fst (decode new_TextDecoder (concat chunks))) (concat later)")
  then have whole: "snd (decode new_TextDecoder (concat (chunks @ later))) = decoded (concat chunks) @ t"
    by (auto simp: decode_append decoded_def split: prod.splits)
  obtain st' b' where fr: "frames parse (decoded (concat chunks)) st1 = (st', b', Break)"
    using assms(2) by (cases "frames parse (decoded (concat chunks)) st1") (auto simp: sees_end_def)
  with frames_append [of parse "decoded (concat chunks)" t st1]
  have ext: "frames parse (decoded (concat chunks) @ t) st1 = (st', b' @ t, Break)"
    by simp
  have "read_loop part_005 parse \<lparr>queue = chunks @ later, ending = e\<rparr> new_TextDecoder [] st1 =
        read_loop part_005 parse \<lparr>queue = chunks, ending = Closed\<rparr> new_TextDecoder [] st1"
    using whole ext fr by (simp add: read_loop_part_005 [OF nd] decoded_def)
  with assms(1) show ?thesis
    by (simp add: sendMessage_def sendMessage_try_def ok_def)
qed


text \<open>
  On a body whose frames never reach an \<open>end\<close> payload the two variants end alike.
\<close>

lemma variants_agree_without_end:
  assumes "sendMessage_start st = Some (st1, req)"
    and "\<not> sees_end parse (decoded (concat chunks)) st1"
  shows "sendMessage ChatBox_js parse
           (Resolves \<lparr>status = s, body = Some \<lparr>queue = chunks, ending = e\<rparr>\<rparr>) st =
         sendMessage part_005 parse
           (Resolves \<lparr>status = s, body = Some \<lparr>queue = chunks, ending = e\<rparr>\<rparr>) st"
proof -
  have nd: "indexOf [] [0xA, 0xA :: 16 word] = None"
    by simp
  from assms(2) have c: "snd (snd (frames parse ([] @ snd (decode new_TextDecoder (concat chunks))) st1)) = Continue"
    by (cases "snd (snd (frames parse (decoded (concat chunks)) st1))")
      (simp_all add: sees_end_def decoded_def)
  have "read_loop ChatBox_js parse \<lparr>queue = chunks, ending = e\<rparr> new_TextDecoder [] st1 =
        read_loop part_005 parse \<lparr>queue = chunks, ending = e\<rparr> new_TextDecoder [] st1"
    using c by (auto simp: read_loop_part_005 [OF nd] read_loop_ChatBox_js [OF nd c] split: prod.splits)
  with assms(1) show ?thesis
    by (simp add: sendMessage_def sendMessage_try_def ok_def)
qed


text \<open>
  Three of the specification's concrete scenarios, in ChatBox.js: a delta split between
  two chunks is assembled, a payload that is not JSON is appended as it stands, and an
  error payload appends a message after the open one.
\<close>

lemma scenarios_ChatBox_js:
  "messages (fst (sendMessage ChatBox_js parse_flat (stream [hello_1, hello_2] Closed)
      (asking ''hi''))) =
     [\<lparr>role = Ai, mtext = greeting\<rparr>, \<lparr>role = User, mtext = jstr ''hi''\<rparr>,
      \<lparr>role = Ai, mtext = jstr ''Hello''\<rparr>]"
  "messages (fst (sendMessage ChatBox_js parse_flat (stream [plain_frame] Closed)
      (asking ''hi''))) =
     [\<lparr>role = Ai, mtext = greeting\<rparr>, \<lparr>role = User, mtext = jstr ''hi''\<rparr>,
      \<lparr>role = Ai, mtext = jstr ''plain text reply''\<rparr>]"
  "messages (fst (sendMessage ChatBox_js parse_flat (stream [rate_frame] Closed)
      (asking ''hi''))) =
     [\<lparr>role = Ai, mtext = greeting\<rparr>, \<lparr>role = User, mtext = jstr ''hi''\<rparr>,
      \<lparr>role = Ai, mtext = []\<rparr>, \<lparr>role = Ai, mtext = jstr ''Error: rate limited''\<rparr>]"
  by code_simp+

section \<open>Submission control\<close>

text \<open>
  C8. A call of \<open>sendMessage\<close> with an input that trims to the empty string, or while
  \<open>loading\<close> is set, returns at once: the state is unchanged (no message, the same
  busy flag) and no request is sent. Every other call appends the user's message with
  the trimmed question and an empty assistant message, clears the input, sets
  \<open>loading\<close>, stores the abort controller and sends one request carrying the question;
  the stream session then runs from that state, and the call ends by appending the
  error the session threw, if any, and clearing \<open>loading\<close>. Whatever the session does,
  the conversation it leaves begins with the old messages and the user's message, and an
  assistant message stands behind them.
\<close>

theorem C8_send_guard:
  "(trim (input st) = [] \<or> loading st \<longrightarrow>
      sendMessage_start st = None \<and> sendMessage v parse net st = (st, []))
   \<and> (trim (input st) \<noteq> [] \<and> \<not> loading st \<longrightarrow>
      sendMessage_start st =
        Some (st\<lparr>messages := messages st @
                  [\<lparr>role = User, mtext = trim (input st)\<rparr>, \<lparr>role = Ai, mtext = []\<rparr>],
                input := [], loading := True, abortRef := True\<rparr>,
              \<lparr>question = trim (input st)\<rparr>)
      \<and> sendMessage v parse net st =
          (case sendMessage_try v parse net
                  (st\<lparr>messages := messages st @
                      [\<lparr>role = User, mtext = trim (input st)\<rparr>, \<lparr>role = Ai, mtext = []\<rparr>],
                    input := [], loading := True, abortRef := True\<rparr>) of
             (st2, thrown) \<Rightarrow>
               ((case thrown of
                   Some e \<Rightarrow> st2\<lparr>messages := messages st2 @
                               [\<lparr>role = Ai, mtext = jstr ''Error: '' @ message_of e\<rparr>]\<rparr>
                 | None \<Rightarrow> st2)\<lparr>loading := False, abortRef := False\<rparr>,
                [\<lparr>question = trim (input st)\<rparr>]))
      \<and> length (messages st) + 2 \<le> length (messages (fst (sendMessage v parse net st)))
      \<and> take (length (messages st) + 1) (messages (fst (sendMessage v parse net st))) =
          messages st @ [\<lparr>role = User, mtext = trim (input st)\<rparr>]
      \<and> role (messages (fst (sendMessage v parse net st)) ! (length (messages st) + 1)) = Ai
      \<and> \<not> loading (fst (sendMessage v parse net st)))"
proof (intro conjI impI)
  assume "trim (input st) = [] \<or> loading st"
  then show "sendMessage_start st = None" "sendMessage v parse net st = (st, [])"
    by (auto simp: sendMessage_def sendMessage_start_def)
next
  assume ok: "trim (input st) \<noteq> [] \<and> \<not> loading st"
  let ?q = "trim (input st)"
  let ?pre = "messages st @ [\<lparr>role = User, mtext = ?q\<rparr>]"
  let ?st1 = "st\<lparr>messages := messages st @ [\<lparr>role = User, mtext = ?q\<rparr>, \<lparr>role = Ai, mtext = []\<rparr>],
                input := [], loading := True, abortRef := True\<rparr>"
  from ok show start: "sendMessage_start st = Some (?st1, \<lparr>question = ?q\<rparr>)"
    by (simp add: sendMessage_start_def setMessages_def setInput_def Let_def)
  obtain st2 thrown where t: "sendMessage_try v parse net ?st1 = (st2, thrown)"
    by (cases "sendMessage_try v parse net ?st1")
  let ?st3 = "case thrown of
                Some e \<Rightarrow> st2\<lparr>messages := messages st2 @
                            [\<lparr>role = Ai, mtext = jstr ''Error: '' @ message_of e\<rparr>]\<rparr>
              | None \<Rightarrow> st2"
  from start t
  have whole: "sendMessage v parse net st =
      (?st3\<lparr>loading := False, abortRef := False\<rparr>, [\<lparr>question = ?q\<rparr>])"
    by (simp add: sendMessage_def setMessages_append_message split: option.splits)
  with t show "sendMessage v parse net st =
      (case sendMessage_try v parse net ?st1 of
         (st2, thrown) \<Rightarrow>
           ((case thrown of
               Some e \<Rightarrow> st2\<lparr>messages := messages st2 @
                           [\<lparr>role = Ai, mtext = jstr ''Error: '' @ message_of e\<rparr>]\<rparr>
             | None \<Rightarrow> st2)\<lparr>loading := False, abortRef := False\<rparr>,
            [\<lparr>question = ?q\<rparr>]))"
    by simp
  have "opened ?pre ?st1"
    by (simp add: opened_def nth_append)
  with sendMessage_try_preserves [of "opened ?pre" parse ?st1 v net] opened_on_data t
  have "opened ?pre st2"
    by simp
  then have "opened ?pre ?st3"
    using opened_append_message [of ?pre st2]
    by (simp add: setMessages_append_message split: option.splits)
  then have fin: "opened ?pre (fst (sendMessage v parse net st))"
    using whole by (simp add: opened_def)
  from fin show "length (messages st) + 2 \<le> length (messages (fst (sendMessage v parse net st)))"
    by (simp add: opened_def)
  from fin show "take (length (messages st) + 1) (messages (fst (sendMessage v parse net st))) = ?pre"
    by (simp add: opened_def)
  from fin show "role (messages (fst (sendMessage v parse net st)) ! (length (messages st) + 1)) = Ai"
    by (simp add: opened_def)
  from whole show "\<not> loading (fst (sendMessage v parse net st))"
    by simp
qed

theorem C8_send_guard_witness:
  "sendMessage part_005 parse_flat (stream [] Closed) (asking ''   '') = (asking ''   '', [])
   \<and> sendMessage ChatBox_js parse_flat (stream [hi_frame] Closed) (setInput (jstr ''again'') streaming)
        = (setInput (jstr ''again'') streaming, [])
   \<and> sendMessage_start (asking ''hi'') =
        Some (\<lparr>messages = [\<lparr>role = Ai, mtext = greeting\<rparr>, \<lparr>role = User, mtext = jstr ''hi''\<rparr>,
                 \<lparr>role = Ai, mtext = []\<rparr>],
               input = [], loading = True, abortRef = True, render_errors = []\<rparr>,
              \<lparr>question = jstr ''hi''\<rparr>)
   \<and> take 2 (messages (fst (sendMessage part_005 parse_flat (stream [hi_frame] Closed)
        (asking ''hi'')))) = [\<lparr>role = Ai, mtext = greeting\<rparr>, \<lparr>role = User, mtext = jstr ''hi''\<rparr>]
   \<and> sendMessage part_005 parse_flat (stream [hi_frame] Closed) (asking ''hi'') =
        (\<lparr>messages = [\<lparr>role = Ai, mtext = greeting\<rparr>, \<lparr>role = User, mtext = jstr ''hi''\<rparr>,
            \<lparr>role = Ai, mtext = jstr ''Hi''\<rparr>],
          input = [], loading = False, abortRef = False, render_errors = []\<rparr>,
         [\<lparr>question = jstr ''hi''\<rparr>])"
proof -
  have 1: "trim (input (asking ''   '')) = []"
    by code_simp
  have 2: "trim (input (asking ''hi'')) = jstr ''hi''"
    by code_simp
  have 3: "jstr ''hi'' \<noteq> []" "\<not> loading (asking ''hi'')"
    by code_simp+
  have 4: "loading (setInput (jstr ''again'') streaming)"
    by (simp add: setInput_def streaming_def)
  have 5: "sendMessage_try part_005 parse_flat (stream [hi_frame] Closed)
        \<lparr>messages = [\<lparr>role = Ai, mtext = greeting\<rparr>, \<lparr>role = User, mtext = jstr ''hi''\<rparr>,
            \<lparr>role = Ai, mtext = []\<rparr>],
          input = [], loading = True, abortRef = True, render_errors = []\<rparr> =
        (\<lparr>messages = [\<lparr>role = Ai, mtext = greeting\<rparr>, \<lparr>role = User, mtext = jstr ''hi''\<rparr>,
            \<lparr>role = Ai, mtext = jstr ''Hi''\<rparr>],
          input = [], loading = True, abortRef = True, render_errors = []\<rparr>, None)"
    by code_simp
  show ?thesis
    using C8_send_guard [of "asking ''   ''" part_005 parse_flat "stream [] Closed"]
      C8_send_guard [of "setInput (jstr ''again'') streaming" ChatBox_js parse_flat
        "stream [hi_frame] Closed"]
      C8_send_guard [of "asking ''hi''" part_005 parse_flat "stream [hi_frame] Closed"] 1 2 3 4 5
    by (simp add: asking_def setInput_def initial_state_def)
qed

section \<open>Transport errors\<close>

text \<open>
  C7. When a call that passes the guard gets a response whose status is not 2xx, or
  that has no body, the conversation ends with the user's message, the empty assistant
  message and exactly one further assistant message \<open>Error: HTTP\<close> followed by the
  status in decimal; \<open>loading\<close> is cleared and the one request was the only one sent.
\<close>

theorem C7_http_error:
  assumes "trim (input st) \<noteq> []" and "\<not> loading st"
    and "\<not> ok resp \<or> body resp = None"
  shows "sendMessage v parse (Resolves resp) st =
    (st\<lparr>messages := messages st @
          [\<lparr>role = User, mtext = trim (input st)\<rparr>, \<lparr>role = Ai, mtext = []\<rparr>,
           \<lparr>role = Ai, mtext = jstr ''Error: HTTP '' @ decimal (status resp)\<rparr>],
        input := [], loading := False, abortRef := False\<rparr>,
     [\<lparr>question = trim (input st)\<rparr>])"
proof -
  have "jstr ''Error: HTTP '' = jstr ''Error: '' @ jstr ''HTTP ''"
    by (simp add: jstr_def)
  with assms show ?thesis
    by (auto simp: sendMessage_def sendMessage_start_def sendMessage_try_def setMessages_def
          setInput_def append_message_def Let_def)
qed

theorem C7_http_error_witness:
  "sendMessage ChatBox_js parse_flat (Resolves \<lparr>status = 500, body = None\<rparr>) (asking ''hi'') =
    (\<lparr>messages = [\<lparr>role = Ai, mtext = greeting\<rparr>, \<lparr>role = User, mtext = jstr ''hi''\<rparr>,
         \<lparr>role = Ai, mtext = []\<rparr>, \<lparr>role = Ai, mtext = jstr ''Error: HTTP 500''\<rparr>],
       input = [], loading = False, abortRef = False, render_errors = []\<rparr>,
     [\<lparr>question = jstr ''hi''\<rparr>])"
proof -
  have 1: "trim (input (asking ''hi'')) \<noteq> []"
    by code_simp
  have 2: "\<not> loading (asking ''hi'')"
    by code_simp
  have 3: "\<not> ok \<lparr>status = 500, body = None\<rparr> \<or> body \<lparr>status = 500, body = None\<rparr> = None"
    by simp
  have 4: "trim (input (asking ''hi'')) = jstr ''hi''"
    by code_simp
  have 5: "jstr ''Error: HTTP '' @ decimal 500 = jstr ''Error: HTTP 500''"
    by code_simp
  show ?thesis
    using C7_http_error [OF 1 2 3, of ChatBox_js parse_flat] 4 5
    by (simp add: asking_def setInput_def initial_state_def)
qed



section \<open>The conversation is never empty\<close>

text \<open>
  C10. Whatever the user types and however many calls of \<open>sendMessage\<close> run, against
  any parser and any behaviour of the network, the message list of the state reached
  from the initial one is not empty, and no state updater of any of these calls has
  found the list empty: \<open>UndefinedText\<close>, the error of reading \<open>text\<close> from a missing
  last element, is not among the errors the updaters have thrown. So every delta and
  every plain-text fallback had a last message to read. (An updater can still throw
  for another reason, a delta that has no string form.)
\<close>

theorem C10_messages_never_empty:
  "messages (run initial_state ops) \<noteq> []
   \<and> UndefinedText \<notin> set (render_errors (run initial_state ops))"
proof -
  have "inv initial_state"
    by (simp add: inv_def initial_state_def)
  from inv_run [OF this, of ops] show ?thesis
    by (simp add: inv_def)
qed

theorem C10_messages_never_empty_witness:
  "messages (run initial_state
      [Type (jstr ''hi''), Send ChatBox_js parse_flat (stream [plain_frame] Closed),
       Type (jstr ''more''), Send part_005 parse_object (stream [object_frame] Closed)]) \<noteq> []
   \<and> UndefinedText \<notin> set (render_errors (run initial_state
      [Type (jstr ''hi''), Send ChatBox_js parse_flat (stream [plain_frame] Closed),
       Type (jstr ''more''), Send part_005 parse_object (stream [object_frame] Closed)]))
   \<and> run initial_state
      [Type (jstr ''hi''), Send ChatBox_js parse_flat (stream [plain_frame] Closed),
       Type (jstr ''more''), Send part_005 parse_object (stream [object_frame] Closed)] =
     \<lparr>messages = [\<lparr>role = Ai, mtext = greeting\<rparr>, \<lparr>role = User, mtext = jstr ''hi''\<rparr>,
         \<lparr>role = Ai, mtext = jstr ''plain text reply''\<rparr>, \<lparr>role = User, mtext = jstr ''more''\<rparr>,
         \<lparr>role = Ai, mtext = []\<rparr>],
       input = [], loading = False, abortRef = False, render_errors = [NotPrimitive]\<rparr>"
proof -
  have "run initial_state
      [Type (jstr ''hi''), Send ChatBox_js parse_flat (stream [plain_frame] Closed),
       Type (jstr ''more''), Send part_005 parse_object (stream [object_frame] Closed)] =
     \<lparr>messages = [\<lparr>role = Ai, mtext = greeting\<rparr>, \<lparr>role = User, mtext = jstr ''hi''\<rparr>,
         \<lparr>role = Ai, mtext = jstr ''plain text reply''\<rparr>, \<lparr>role = User, mtext = jstr ''more''\<rparr>,
         \<lparr>role = Ai, mtext = []\<rparr>],
       input = [], loading = False, abortRef = False, render_errors = [NotPrimitive]\<rparr>"
    by code_simp
  with C10_messages_never_empty
    [of "[Type (jstr ''hi''), Send ChatBox_js parse_flat (stream [plain_frame] Closed),
       Type (jstr ''more''), Send part_005 parse_object (stream [object_frame] Closed)]"]
  show ?thesis
    by simp
qed

section \<open>The end payload\<close>

text \<open>
  C2. Once a frame with the payload \<open>end\<close> has been processed, no further delta is
  applied, even if further bytes arrive. ChatBox.js breaks this: its \<open>break\<close> leaves
  only the inner loop, the outer loop goes on reading, and a delta frame that arrives in
  the next chunk is applied. On the chunks \<open>data: end\<close> and then
  \<open>data: {"delta":"ignored"}\<close> the assistant message ends as \<open>ignored\<close>.
\<close>

theorem C2_delta_after_end_ChatBox_js:
  "messages (fst (sendMessage ChatBox_js parse_flat (stream [end_frame, ignored_frame] Closed)
      (asking ''hi''))) =
   [\<lparr>role = Ai, mtext = greeting\<rparr>, \<lparr>role = User, mtext = jstr ''hi''\<rparr>,
    \<lparr>role = Ai, mtext = jstr ''ignored''\<rparr>]"
  by code_simp


text \<open>
  C9. The two variants end with the same conversation on every chunked stream. They
  do not: on the two chunks above, part_005 cancels the reader at \<open>end\<close> and leaves
  the assistant message empty, ChatBox.js reads on and fills it.
\<close>

theorem C9_variants_differ:
  "messages (fst (sendMessage ChatBox_js parse_flat (stream [end_frame, ignored_frame] Closed)
      (asking ''hi''))) \<noteq>
   messages (fst (sendMessage part_005 parse_flat (stream [end_frame, ignored_frame] Closed)
      (asking ''hi'')))"
  by code_simp


text \<open>
  C1. Every chunking of the same bytes gives the same applied deltas and the same final
  text. In ChatBox.js it does not: the bytes of the two frames above delivered as one
  chunk leave the delta unapplied (the loop is left at \<open>end\<close> and the stream closes),
  delivered as two chunks they apply it.
\<close>

theorem C1_chunking_ChatBox_js:
  "messages (fst (sendMessage ChatBox_js parse_flat (stream [end_frame @ ignored_frame] Closed)
      (asking ''hi''))) \<noteq>
   messages (fst (sendMessage ChatBox_js parse_flat (stream [end_frame, ignored_frame] Closed)
      (asking ''hi'')))"
  by code_simp


section \<open>Cancelling\<close>

text \<open>
  The claim as the specification states it, that cancelling appends no message, fails:
  the stream delivers one delta and the user then presses Stop.
\<close>

theorem C3_abort_appends_error:
  "messages (fst (sendMessage ChatBox_js parse_flat (stream [hel_frame] aborted) (asking ''hi''))) =
   [\<lparr>role = Ai, mtext = greeting\<rparr>, \<lparr>role = User, mtext = jstr ''hi''\<rparr>,
    \<lparr>role = Ai, mtext = jstr ''Hel''\<rparr>,
    \<lparr>role = Ai, mtext = jstr ''Error: BodyStreamBuffer was aborted''\<rparr>]"
  by code_simp


text \<open>
  C3 (amended). In ChatBox.js, the one variant with a Stop button, a call that passes
  the guard and whose stream is aborted after delivering some chunks ends as the call
  whose stream closes after the same chunks, with one more assistant message
  \<open>Error: \<close> followed by the abort's message appended to the conversation; nothing
  else differs, and \<open>loading\<close> is cleared.
\<close>

theorem C3_abort_ChatBox_js:
  assumes "trim (input st) \<noteq> []" and "\<not> loading st"
    and "ok resp" and "body resp = Some \<lparr>queue = chunks, ending = Errored (AbortError m)\<rparr>"
  shows "sendMessage ChatBox_js parse (Resolves resp) st =
    (let st' = fst (sendMessage ChatBox_js parse
                 (Resolves (resp\<lparr>body := Some \<lparr>queue = chunks, ending = Closed\<rparr>\<rparr>)) st)
     in (st'\<lparr>messages := messages st' @ [\<lparr>role = Ai, mtext = jstr ''Error: '' @ m\<rparr>]\<rparr>,
         [\<lparr>question = trim (input st)\<rparr>]))
    \<and> \<not> loading (fst (sendMessage ChatBox_js parse (Resolves resp) st))"
proof -
  obtain st1 where start: "sendMessage_start st = Some (st1, \<lparr>question = trim (input st)\<rparr>)"
    using assms(1,2) by (simp add: sendMessage_start_def Let_def)
  let ?rc = "read_loop ChatBox_js parse \<lparr>queue = chunks, ending = Closed\<rparr> new_TextDecoder [] st1"
  let ?st' = "(fst ?rc)\<lparr>loading := False, abortRef := False\<rparr>"
  note rl = read_loop_ChatBox_js_errored [of parse chunks "AbortError m" new_TextDecoder "[]" st1]
  from rl have rc: "?rc = (fst ?rc, None)"
    by (metis prod.collapse)
  from assms(3) rc
  have closed: "sendMessage_try ChatBox_js parse
      (Resolves (resp\<lparr>body := Some \<lparr>queue = chunks, ending = Closed\<rparr>\<rparr>)) st1 = (fst ?rc, None)"
    by (simp add: sendMessage_try_def ok_def)
  from assms(3,4) rl
  have abort: "sendMessage_try ChatBox_js parse (Resolves resp) st1 = (fst ?rc, Some (AbortError m))"
    by (simp add: sendMessage_try_def)
  have 1: "sendMessage ChatBox_js parse
      (Resolves (resp\<lparr>body := Some \<lparr>queue = chunks, ending = Closed\<rparr>\<rparr>)) st
      = (?st', [\<lparr>question = trim (input st)\<rparr>])"
    by (simp add: sendMessage_def start closed)
  have 2: "sendMessage ChatBox_js parse (Resolves resp) st
      = (?st'\<lparr>messages := messages ?st' @ [\<lparr>role = Ai, mtext = jstr ''Error: '' @ m\<rparr>]\<rparr>,
         [\<lparr>question = trim (input st)\<rparr>])"
    by (simp add: sendMessage_def start abort setMessages_append_message)
  from 1 2 show ?thesis
    by (simp add: Let_def)
qed

theorem C3_abort_ChatBox_js_witness:
  "sendMessage ChatBox_js parse_flat (stream [hel_frame] aborted) (asking ''hi'') =
     (\<lparr>messages = [\<lparr>role = Ai, mtext = greeting\<rparr>, \<lparr>role = User, mtext = jstr ''hi''\<rparr>,
          \<lparr>role = Ai, mtext = jstr ''Hel''\<rparr>,
          \<lparr>role = Ai, mtext = jstr ''Error: BodyStreamBuffer was aborted''\<rparr>],
        input = [], loading = False, abortRef = False, render_errors = []\<rparr>,
      [\<lparr>question = jstr ''hi''\<rparr>])"
proof -
  have 1: "trim (input (asking ''hi'')) \<noteq> []"
    by code_simp
  have 2: "\<not> loading (asking ''hi'')"
    by code_simp
  have 3: "ok \<lparr>status = 200, body = Some \<lparr>queue = [hel_frame], ending = aborted\<rparr>\<rparr>"
    by (simp add: ok_def)
  have 4: "trim (input (asking ''hi'')) = jstr ''hi''"
    by code_simp
  have 5: "jstr ''Error: '' @ jstr ''BodyStreamBuffer was aborted''
      = jstr ''Error: BodyStreamBuffer was aborted''"
    by (simp add: jstr_def)
  have 6: "fst (sendMessage ChatBox_js parse_flat (stream [hel_frame] Closed) (asking ''hi'')) =
     \<lparr>messages = [\<lparr>role = Ai, mtext = greeting\<rparr>, \<lparr>role = User, mtext = jstr ''hi''\<rparr>,
          \<lparr>role = Ai, mtext = jstr ''Hel''\<rparr>],
        input = [], loading = False, abortRef = False, render_errors = []\<rparr>"
    by code_simp
  show ?thesis
    using C3_abort_ChatBox_js [OF 1 2 3, of "[hel_frame]" "jstr ''BodyStreamBuffer was aborted''"
        parse_flat] 6
    by (simp add: stream_def aborted_def 4 5 Let_def)
qed

section \<open>Frames with an event line\<close>

text \<open>
  The claim as stated, that the \<open>data:\<close> line of a frame is processed when
  \<open>event:\<close> lines come before it, fails: the frame below holds a delta and leaves
  the assistant message empty.
\<close>

theorem C4_event_frame_dropped:
  "messages (fst (sendMessage ChatBox_js parse_flat (stream [event_frame] Closed) (asking ''hi''))) =
   [\<lparr>role = Ai, mtext = greeting\<rparr>, \<lparr>role = User, mtext = jstr ''hi''\<rparr>,
    \<lparr>role = Ai, mtext = []\<rparr>]"
  by code_simp


text \<open>
  C4 (amended). A frame is classified as a whole by how its trimmed text starts. An
  empty frame and a frame that starts with \<open>event:\<close> are skipped whole, whatever lines
  follow, as is every frame that does not start with \<open>data:\<close>: the loop goes on
  behind the delimiter with the state unchanged. A frame that starts with \<open>data:\<close>
  has all that follows these five characters, trimmed, as its payload. The payload
  \<open>end\<close> leaves the loop with the state unchanged (part_005 cancels the reader on the
  way); every other payload is handed to the JSON branch, which takes it as a delta, an
  error or plain text, before the loop goes on.
\<close>

theorem C4_frame_prefix:
  assumes "indexOf buffer [0xA, 0xA] = Some idx" and "raw = trim (take idx buffer)"
  shows "(raw = [] \<or> startsWith raw (jstr ''event:'') \<longrightarrow>
           frames_loop v parse buffer st rd = frames_loop v parse (drop (idx + 2) buffer) st rd)
    \<and> (\<not> startsWith raw (jstr ''data:'') \<longrightarrow>
           frames_loop v parse buffer st rd = frames_loop v parse (drop (idx + 2) buffer) st rd)
    \<and> (startsWith raw (jstr ''data:'') \<and> trim (drop 5 raw) = jstr ''end'' \<longrightarrow>
           frames_loop v parse buffer st rd =
             (st, drop (idx + 2) buffer, case v of ChatBox_js \<Rightarrow> rd | part_005 \<Rightarrow> reader_cancel rd))
    \<and> (startsWith raw (jstr ''data:'') \<and> trim (drop 5 raw) \<noteq> jstr ''end'' \<longrightarrow>
           frames_loop v parse buffer st rd =
             frames_loop v parse (drop (idx + 2) buffer) (on_data parse (trim (drop 5 raw)) st) rd)"
proof (intro conjI impI)
  assume "raw = [] \<or> startsWith raw (jstr ''event:'')"
  then have "on_frame parse raw st = (st, Continue)"
    by (auto simp: on_frame_def)
  with assms show "frames_loop v parse buffer st rd = frames_loop v parse (drop (idx + 2) buffer) st rd"
    by (subst frames_loop.simps) simp
next
  assume "\<not> startsWith raw (jstr ''data:'')"
  then have "on_frame parse raw st = (st, Continue)"
    by (auto simp: on_frame_def)
  with assms show "frames_loop v parse buffer st rd = frames_loop v parse (drop (idx + 2) buffer) st rd"
    by (subst frames_loop.simps) simp
next
  assume a: "startsWith raw (jstr ''data:'') \<and> trim (drop 5 raw) = jstr ''end''"
  with data_not_event [of raw]
  have "on_frame parse raw st = (st, Break)"
    by (simp add: on_frame_def Let_def)
  with assms show "frames_loop v parse buffer st rd =
      (st, drop (idx + 2) buffer, case v of ChatBox_js \<Rightarrow> rd | part_005 \<Rightarrow> reader_cancel rd)"
    by (subst frames_loop.simps) (simp add: on_end_def)
next
  assume a: "startsWith raw (jstr ''data:'') \<and> trim (drop 5 raw) \<noteq> jstr ''end''"
  with data_not_event [of raw]
  have "on_frame parse raw st = (on_data parse (trim (drop 5 raw)) st, Continue)"
    by (simp add: on_frame_def Let_def)
  with assms show "frames_loop v parse buffer st rd =
      frames_loop v parse (drop (idx + 2) buffer) (on_data parse (trim (drop 5 raw)) st) rd"
    by (subst frames_loop.simps) simp
qed

theorem C4_frame_prefix_witness:
  "frames_loop ChatBox_js parse_flat event_text streaming \<lparr>queue = [], ending = Closed\<rparr>
     = (streaming, [], \<lparr>queue = [], ending = Closed\<rparr>)
   \<and> frames_loop ChatBox_js parse_flat hi_text streaming \<lparr>queue = [], ending = Closed\<rparr>
     = (streaming\<lparr>messages := [\<lparr>role = Ai, mtext = greeting\<rparr>, \<lparr>role = User, mtext = jstr ''hi''\<rparr>,
          \<lparr>role = Ai, mtext = jstr ''HelHi''\<rparr>]\<rparr>, [], \<lparr>queue = [], ending = Closed\<rparr>)
   \<and> frames_loop part_005 parse_flat (end_text @ hi_text) streaming
        \<lparr>queue = [hi_frame], ending = Closed\<rparr>
     = (streaming, hi_text, \<lparr>queue = [], ending = Closed\<rparr>)"
proof -
  have 1: "indexOf event_text [0xA, 0xA] = Some 35"
    by code_simp
  have 2: "trim (take 35 event_text) = [] \<or> startsWith (trim (take 35 event_text)) (jstr ''event:'')"
    "\<not> startsWith (trim (take 35 event_text)) (jstr ''data:'')"
    by code_simp+
  have 3: "indexOf hi_text [0xA, 0xA] = Some 20"
    by code_simp
  have 4: "startsWith (trim (take 20 hi_text)) (jstr ''data:'')
      \<and> trim (drop 5 (trim (take 20 hi_text))) \<noteq> jstr ''end''"
    by code_simp
  have 5: "frames_loop ChatBox_js parse_flat (drop (35 + 2) event_text) streaming \<lparr>queue = [], ending = Closed\<rparr>
      = (streaming, [], \<lparr>queue = [], ending = Closed\<rparr>)"
    by code_simp
  have 6: "frames_loop ChatBox_js parse_flat (drop (20 + 2) hi_text)
        (on_data parse_flat (trim (drop 5 (trim (take 20 hi_text)))) streaming) \<lparr>queue = [], ending = Closed\<rparr>
      = (streaming\<lparr>messages := [\<lparr>role = Ai, mtext = greeting\<rparr>, \<lparr>role = User, mtext = jstr ''hi''\<rparr>,
          \<lparr>role = Ai, mtext = jstr ''HelHi''\<rparr>]\<rparr>, [], \<lparr>queue = [], ending = Closed\<rparr>)"
    by code_simp
  have 7: "indexOf (end_text @ hi_text) [0xA, 0xA] = Some 9"
    by code_simp
  have 8: "startsWith (trim (take 9 (end_text @ hi_text))) (jstr ''data:'')
      \<and> trim (drop 5 (trim (take 9 (end_text @ hi_text)))) = jstr ''end''"
    by code_simp
  have 9: "drop (9 + 2) (end_text @ hi_text) = hi_text"
    by code_simp
  from C4_frame_prefix [OF 1 refl, of ChatBox_js parse_flat streaming "\<lparr>queue = [], ending = Closed\<rparr>"]
    C4_frame_prefix [OF 3 refl, of ChatBox_js parse_flat streaming "\<lparr>queue = [], ending = Closed\<rparr>"]
    C4_frame_prefix [OF 7 refl, of part_005 parse_flat streaming "\<lparr>queue = [hi_frame], ending = Closed\<rparr>"]
    2 4 5 6 8 9
  show ?thesis
    by (simp add: reader_cancel_def)
qed

section \<open>Delta and error payloads\<close>





section \<open>Payloads that are not JSON\<close>

text \<open>
  The claim as stated, that the raw text goes to the open message and never shows as an
  error message, fails as C5 does: after an error payload the text that is not JSON is
  appended to the error message.
\<close>

theorem C6_fallback_lands_in_error_message:
  "messages (fst (sendMessage ChatBox_js parse_flat (stream [rate_frame, plain_frame] Closed)
      (asking ''hi''))) =
   [\<lparr>role = Ai, mtext = greeting\<rparr>, \<lparr>role = User, mtext = jstr ''hi''\<rparr>,
    \<lparr>role = Ai, mtext = []\<rparr>,
    \<lparr>role = Ai, mtext = jstr ''Error: rate limitedplain text reply''\<rparr>]"
  by code_simp

text \<open>
  C6 (amended). A \<open>data:\<close> frame whose payload is handed to \<open>JSON.parse\<close> (it is not
  the \<open>end\<close> sentinel) and fails to parse throws nothing: the loop continues, the raw
  payload is appended verbatim to the text of the conversation's last message,
  whichever message that is (the open one until an error payload has appended another),
  and no message is added.
\<close>

theorem C6_parse_failure:
  assumes "startsWith raw (jstr ''data:'')" and "trim (drop 5 raw) \<noteq> jstr ''end''"
    and "parse (trim (drop 5 raw)) = None" and "messages st \<noteq> []"
  shows "on_frame parse raw st =
    (st\<lparr>messages := butlast (messages st) @
        [(last (messages st))\<lparr>mtext := mtext (last (messages st)) @ trim (drop 5 raw)\<rparr>]\<rparr>,
     Continue)"
  using assms data_not_event [of raw]
  by (simp add: on_frame_def on_data_def Let_def setMessages_append_to_last)

theorem C6_parse_failure_witness:
  "on_frame parse_flat (jstr ''data: plain text reply'') streaming =
    (streaming\<lparr>messages := [\<lparr>role = Ai, mtext = greeting\<rparr>, \<lparr>role = User, mtext = jstr ''hi''\<rparr>,
        \<lparr>role = Ai, mtext = jstr ''Helplain text reply''\<rparr>]\<rparr>, Continue)"
proof -
  have 1: "startsWith (jstr ''data: plain text reply'') (jstr ''data:'')"
    by code_simp
  have 2: "trim (drop 5 (jstr ''data: plain text reply'')) \<noteq> jstr ''end''"
    by code_simp
  have 3: "parse_flat (trim (drop 5 (jstr ''data: plain text reply''))) = None"
    by code_simp
  have 4: "messages streaming \<noteq> []"
    by (simp add: streaming_def)
  have 5: "trim (drop 5 (jstr ''data: plain text reply'')) = jstr ''plain text reply''"
    by code_simp
  have 6: "jstr ''Hel'' @ jstr ''plain text reply'' = jstr ''Helplain text reply''"
    by (simp add: jstr_def)
  from C6_parse_failure [where parse = parse_flat, OF 1 2 3 4] 5 6 show ?thesis
    by (simp add: streaming_def)
qed

end
